theory Spec2Isabelle
  imports Main "HOL-Library.Word" "HOL-Library.Signed_Division"
begin

section \<open>Machine integers\<close>

text \<open>
  Package frac computes on Go's \<open>int\<close>, which is 64 bits wide on the usual
  platforms.  It is modelled as a 64-bit word read in two's complement: \<open>+\<close>,
  \<open>-\<close> and \<open>*\<close> wrap around, comparisons are the signed ones (\<open><s\<close>,
  \<open>\<le>s\<close>), and \<open>/\<close> and \<open>%\<close> truncate towards zero.
\<close>

type_synonym go_int = "64 word"

definition MinInt :: go_int where
  "MinInt = word_of_int (- (2 ^ 63))"

definition MaxInt :: go_int where
  "MaxInt = word_of_int (2 ^ 63 - 1)"

text \<open>The only run-time panic of the package: integer divide by zero.\<close>

datatype fault = DivideByZero

text \<open>
  Go's \<open>a / b\<close> on \<open>int\<close>: a panic when \<open>b\<close> is zero, otherwise the quotient
  truncated towards zero (\<open>tdiv\<close>); \<open>MinInt / -1\<close> wraps to \<open>MinInt\<close>.
\<close>

definition tdiv :: "go_int \<Rightarrow> go_int \<Rightarrow> go_int" where
  "tdiv a b = word_of_int (sint a sdiv sint b)"

definition quo :: "go_int \<Rightarrow> go_int \<Rightarrow> fault + go_int" where
  "quo a b = (if b = 0 then Inl DivideByZero else Inr (tdiv a b))"

text \<open>
  Go's \<open>a % b\<close> for a non-zero \<open>b\<close>: the remainder of the truncated division,
  with the sign of the dividend.  Its only use, in \<open>GCD\<close>, is guarded by
  \<open>y != 0\<close>.
\<close>

definition rem :: "go_int \<Rightarrow> go_int \<Rightarrow> go_int" where
  "rem a b = word_of_int (sint a smod sint b)"

section \<open>The fraction type\<close>

record F =
  N :: go_int
  D :: go_int

section \<open>Integer primitives\<close>

text \<open>\<open>func abs(x int) int\<close>\<close>

definition abs_go :: "go_int \<Rightarrow> go_int" where
  "abs_go x = (if x <s 0 then - x else x)"

lemma sint_ne_0: "y \<noteq> 0 \<Longrightarrow> sint (y :: go_int) \<noteq> 0"
  by (simp add: signed_eq_0_iff)

lemma sint_range: "- (2 ^ 63) \<le> sint (y :: go_int) \<and> sint y < 2 ^ 63"
  using sint_ge [of y] sint_lt [of y] by simp

lemma sint_word_of_int_id:
  "- (2 ^ 63) \<le> k \<Longrightarrow> k < 2 ^ 63 \<Longrightarrow> sint (word_of_int k :: go_int) = k"
  by (simp add: sint_sbintrunc' signed_take_bit_int_eq_self_iff)

lemma smod_abs_less: "b \<noteq> 0 \<Longrightarrow> \<bar>(a :: int) smod b\<bar> < \<bar>b\<bar>"
  using smod_int_range [where a = a and b = b] by auto

lemma rem_decreases: "y \<noteq> 0 \<Longrightarrow> \<bar>sint (rem x y)\<bar> < \<bar>sint y\<bar>"
proof -
  assume "y \<noteq> 0"
  then have nz: "sint y \<noteq> 0" by (rule sint_ne_0)
  let ?r = "sint x smod sint y"
  have lt: "\<bar>?r\<bar> < \<bar>sint y\<bar>" using nz by (rule smod_abs_less)
  have "\<bar>sint y\<bar> \<le> 2 ^ 63" using sint_range [of y] by auto
  with lt have "- (2 ^ 63) \<le> ?r" "?r < 2 ^ 63" by auto
  then have "sint (word_of_int ?r :: go_int) = ?r" by (rule sint_word_of_int_id)
  with lt show ?thesis by (simp add: rem_def)
qed

text \<open>
  \<open>func GCD(x, y int) int\<close>: the loop \<open>for y != 0 { x, y = y, x%y }\<close> followed by
  \<open>return abs(x)\<close>.  The recursion is well-founded on the magnitude of \<open>y\<close>.
\<close>

function GCD_go :: "go_int \<Rightarrow> go_int \<Rightarrow> go_int" where
  "GCD_go x y = (if y \<noteq> 0 then GCD_go y (rem x y) else abs_go x)"
  by pat_completeness auto
termination
  by (relation "measure (\<lambda>(x, y). nat \<bar>sint y\<bar>)")
    (auto simp: rem_decreases dest: sint_ne_0)

declare GCD_go.simps [simp del]

text \<open>
  The same loop with nothing assumed about its termination: a run that never
  leaves the loop has the value \<open>None\<close>.
\<close>

partial_function (option) GCD_loop :: "go_int \<Rightarrow> go_int \<Rightarrow> go_int option" where
  "GCD_loop x y = (if y \<noteq> 0 then GCD_loop y (rem x y) else Some (abs_go x))"

text \<open>
  \<open>func LCM(x, y int) int\<close>.  The division by the gcd is Go's \<open>/\<close> and can
  panic as such.
\<close>

definition LCM_go :: "go_int \<Rightarrow> go_int \<Rightarrow> fault + go_int" where
  "LCM_go x y =
     (if x = y \<or> x = - y then Inr x
      else case quo x (GCD_go x y) of
             Inl e \<Rightarrow> Inl e
           | Inr q \<Rightarrow> Inr (abs_go (q * y)))"

section \<open>Elementary operators\<close>

text \<open>
  The methods have value receivers: the assignments to the fields of \<open>x\<close> and
  \<open>y\<close> in a body are updates of local copies, written here as successive
  record updates.
\<close>

definition Mul :: "F \<Rightarrow> F \<Rightarrow> F" where
  "Mul x y = \<lparr>N = N x * N y, D = D x * D y\<rparr>"

definition Div :: "F \<Rightarrow> F \<Rightarrow> F" where
  "Div x y =
     (let y1 = (if N y <s 0 then \<lparr>N = - N y, D = - D y\<rparr> else y)
      in \<lparr>N = N x * D y1, D = D x * N y1\<rparr>)"

definition Add :: "F \<Rightarrow> F \<Rightarrow> F" where
  "Add x y =
     (if D x \<noteq> D y then
        (let x1 = x\<lparr>N := N x * D y\<rparr>;
             y1 = y\<lparr>N := N y * D x1\<rparr>;
             x2 = x1\<lparr>D := D x1 * D y1\<rparr>
         in \<lparr>N = N x2 + N y1, D = D x2\<rparr>)
      else \<lparr>N = N x + N y, D = D x\<rparr>)"

definition Sub :: "F \<Rightarrow> F \<Rightarrow> F" where
  "Sub x y =
     (if D x \<noteq> D y then
        (let x1 = x\<lparr>N := N x * D y\<rparr>;
             y1 = y\<lparr>N := N y * D x1\<rparr>;
             x2 = x1\<lparr>D := D x1 * D y1\<rparr>
         in \<lparr>N = N x2 - N y1, D = D x2\<rparr>)
      else \<lparr>N = N x - N y, D = D x\<rparr>)"

definition Inv :: "F \<Rightarrow> F" where
  "Inv x = (if N x <s 0 then \<lparr>N = - D x, D = - N x\<rparr> else \<lparr>N = D x, D = N x\<rparr>)"

definition Abs :: "F \<Rightarrow> F" where
  "Abs x =
     (let x1 = (if N x <s 0 then x\<lparr>N := - N x\<rparr> else x);
          x2 = (if D x1 <s 0 then x1\<lparr>D := - D x1\<rparr> else x1)
      in x2)"

text \<open>\<open>Cmp\<close> returns an \<open>int\<close>: \<open>-1\<close>, \<open>0\<close> or \<open>+1\<close>.\<close>

definition Cmp :: "F \<Rightarrow> F \<Rightarrow> go_int" where
  "Cmp x y =
     (let (x1, y1) =
            (if D x \<noteq> D y then
               (let x1 = x\<lparr>N := N x * D y\<rparr>;
                    y1 = y\<lparr>N := N y * D x1\<rparr>
                in (x1, y1))
             else (x, y))
      in if N x1 <s N y1 then - 1
         else if N y1 <s N x1 then 1
         else 0)"

definition IsNeg :: "F \<Rightarrow> bool" where
  "IsNeg x \<longleftrightarrow> xor (N x) (D x) <s 0"

text \<open>\<open>Assert\<close> evaluates \<open>1 / x.D\<close> for its panic and returns \<open>x\<close>.\<close>

definition Assert :: "F \<Rightarrow> fault + F" where
  "Assert x = (case quo 1 (D x) of Inl e \<Rightarrow> Inl e | Inr _ \<Rightarrow> Inr x)"

text \<open>
  \<open>Float64\<close> is a floating-point division, which does not panic, and
  \<open>String\<close> formats the two fields; neither is part of this model.
\<close>

section \<open>Normalization\<close>

definition Reduce :: "F \<Rightarrow> fault + F" where
  "Reduce x =
     (let d = GCD_go (N x) (D x)
      in case quo (N x) d of
           Inl e \<Rightarrow> Inl e
         | Inr n \<Rightarrow>
             (case quo (D x) d of
                Inl e \<Rightarrow> Inl e
              | Inr dd \<Rightarrow>
                  Inr (if dd <s 0 then \<lparr>N = - n, D = - dd\<rparr> else \<lparr>N = n, D = dd\<rparr>)))"

definition NormTo :: "F \<Rightarrow> F \<Rightarrow> fault + F" where
  "NormTo x y =
     (if D x = D y then Inr x
      else case Reduce x of
             Inl e \<Rightarrow> Inl e
           | Inr rx \<Rightarrow>
               (case LCM_go (D rx) (D y) of
                  Inl e \<Rightarrow> Inl e
                | Inr m \<Rightarrow>
                    (case quo m (D x) of
                       Inl e \<Rightarrow> Inl e
                     | Inr q \<Rightarrow> Inr \<lparr>N = q * N x, D = m\<rparr>)))"

definition Norm :: "F \<Rightarrow> F \<Rightarrow> fault + F \<times> F" where
  "Norm x y =
     (if D x = D y then Inr (x, y)
      else case Reduce x of
             Inl e \<Rightarrow> Inl e
           | Inr rx \<Rightarrow>
               (case Reduce y of
                  Inl e \<Rightarrow> Inl e
                | Inr ry \<Rightarrow>
                    (case LCM_go (D rx) (D ry) of
                       Inl e \<Rightarrow> Inl e
                     | Inr m0 \<Rightarrow>
                         (let m = (if m0 \<le>s D x then D x
                                   else if m0 <s D y then D y
                                   else m0)
                          in case quo m (D x) of
                               Inl e \<Rightarrow> Inl e
                             | Inr qx \<Rightarrow>
                                 (case quo m (D y) of
                                    Inl e \<Rightarrow> Inl e
                                  | Inr qy \<Rightarrow>
                                      Inr (\<lparr>N = qx * N x, D = m\<rparr>,
                                           \<lparr>N = qy * N y, D = m\<rparr>))))))"

section \<open>Text boundary\<close>

text \<open>
  \<open>Parse\<close> calls \<open>strconv.Atoi\<close> of Go's standard library, which is modelled
  here: an optional sign \<open>+\<close> or \<open>-\<close>, then one or more decimal digits and
  nothing else.  The digits are read from the left; a character that is not
  a digit is a syntax error, returning 0, and a value that leaves 64 unsigned
  bits is a range error at once.  At the end a value that does not fit into
  \<open>int\<close> is a range error too; a range error returns the nearest bound.  A
  Go string is a sequence of bytes, as \<open>string\<close> is.
\<close>

datatype parse_error = ErrSyntax | ErrRange

definition digit :: "char \<Rightarrow> nat option" where
  "digit c =
     (let k = (of_char c :: nat)
      in if 48 \<le> k \<and> k \<le> 57 then Some (k - 48) else None)"

fun digits :: "nat \<Rightarrow> string \<Rightarrow> parse_error + nat" where
  "digits n [] = Inr n"
| "digits n (c # cs) =
     (case digit c of
        None \<Rightarrow> Inl ErrSyntax
      | Some d \<Rightarrow>
          if 2 ^ 64 \<le> n * 10 + d then Inl ErrRange
          else digits (n * 10 + d) cs)"

definition Atoi :: "string \<Rightarrow> go_int \<times> parse_error option" where
  "Atoi s =
     (let (neg, ds) =
            (case s of
               [] \<Rightarrow> (False, [])
             | c # cs \<Rightarrow>
                 if c = CHR ''+'' then (False, cs)
                 else if c = CHR ''-'' then (True, cs)
                 else (False, s))
      in if ds = [] then (0, Some ErrSyntax)
         else case digits 0 ds of
                Inl ErrSyntax \<Rightarrow> (0, Some ErrSyntax)
              | Inl ErrRange \<Rightarrow> (if neg then MinInt else MaxInt, Some ErrRange)
              | Inr n \<Rightarrow>
                  if \<not> neg \<and> 2 ^ 63 \<le> n then (MaxInt, Some ErrRange)
                  else if neg \<and> 2 ^ 63 < n then (MinInt, Some ErrRange)
                  else (if neg then - of_nat n else of_nat n, None))"

text \<open>
  The loop of \<open>Parse\<close>: at the first \<open>/\<close> the input is cut into \<open>s[:i]\<close> and
  \<open>s[i+1:]\<close>; without one, \<open>s\<close> stays whole and \<open>t\<close> stays empty.  The loop
  ranges over runes, and a byte \<open>/\<close> is always a rune of its own.
\<close>

fun cut_slash :: "string \<Rightarrow> string \<times> string" where
  "cut_slash [] = ([], [])"
| "cut_slash (c # cs) =
     (if c = CHR ''/'' then ([], cs)
      else (let (a, t) = cut_slash cs in (c # a, t)))"

text \<open>The pair returned is Go's \<open>(F, error)\<close>, with \<open>None\<close> for a nil error.\<close>

definition Parse :: "string \<Rightarrow> F \<times> parse_error option" where
  "Parse s0 =
     (let (s, t) = cut_slash s0;
          x = \<lparr>N = 0, D = 1\<rparr>;
          (n, err) = Atoi s;
          x1 = x\<lparr>N := n\<rparr>
      in if err = None \<and> t \<noteq> [] then
           (let (d, err2) = Atoi t in (x1\<lparr>D := d\<rparr>, err2))
         else (x1, err))"

section \<open>Notions used in the statements\<close>

text \<open>An integer that an \<open>int\<close> holds without wrapping.\<close>

definition fits :: "int \<Rightarrow> bool" where
  "fits k \<longleftrightarrow> - (2 ^ 63) \<le> k \<and> k < 2 ^ 63"

text \<open>
  The denominator of a result \<open>r\<close> is not smaller in magnitude than those of
  the operands \<open>x\<close> and \<open>y\<close>.
\<close>

definition denominator_grows :: "F \<Rightarrow> F \<Rightarrow> F \<Rightarrow> bool" where
  "denominator_grows x y r \<longleftrightarrow> max \<bar>sint (D x)\<bar> \<bar>sint (D y)\<bar> \<le> \<bar>sint (D r)\<bar>"

text \<open>The sign of an integer as \<open>Cmp\<close> reports it: \<open>-1\<close>, \<open>0\<close> or \<open>+1\<close>.\<close>

definition sign_of :: "int \<Rightarrow> go_int" where
  "sign_of k = (if k < 0 then - 1 else if 0 < k then 1 else 0)"

text \<open>
  The lowest terms of a pair of integers with the denominator made
  non-negative, cut to \<open>int\<close>: what \<open>Reduce\<close> computes when the gcd is
  representable.
\<close>

definition lowest :: "int \<Rightarrow> int \<Rightarrow> F" where
  "lowest a b =
     (let g = gcd a b; n = a div g; d = b div g
      in if d < 0 then \<lparr>N = word_of_int (- n), D = word_of_int (- d)\<rparr>
         else \<lparr>N = word_of_int n, D = word_of_int d\<rparr>)"

section \<open>The integer primitives on the integers\<close>

text \<open>
  \<open>GCD\<close> computes the greatest common divisor of the signed values, cut to
  64 bits: the one result that does not fit is \<open>2 ^ 63\<close>, which \<open>abs\<close> wraps to
  \<open>MinInt\<close>.
\<close>

lemma sint_rem: "y \<noteq> 0 \<Longrightarrow> sint (rem x y) = sint x smod sint y"
proof -
  assume "y \<noteq> 0"
  then have nz: "sint y \<noteq> 0" by (rule sint_ne_0)
  let ?r = "sint x smod sint y"
  have lt: "\<bar>?r\<bar> < \<bar>sint y\<bar>" using nz by (rule smod_abs_less)
  have "\<bar>sint y\<bar> \<le> 2 ^ 63" using sint_range [of y] by auto
  with lt have "- (2 ^ 63) \<le> ?r" "?r < 2 ^ 63" by auto
  then show ?thesis unfolding rem_def by (rule sint_word_of_int_id)
qed

lemma gcd_smod: "gcd (b :: int) (a smod b) = gcd a b"
proof -
  have "gcd b (a smod b) = gcd \<bar>b\<bar> (\<bar>a\<bar> mod \<bar>b\<bar>)"
    by (cases "a < 0"; cases "a = 0") (simp_all add: signed_modulo_int_def)
  also have "\<dots> = gcd \<bar>a\<bar> \<bar>b\<bar>"
    by (rule gcd_red_int [symmetric])
  finally show ?thesis by simp
qed

lemma abs_go_eq: "abs_go x = word_of_int \<bar>sint x\<bar>"
  by (simp add: abs_go_def word_sless_alt abs_if)

lemma GCD_go_eq: "GCD_go x y = word_of_int (gcd (sint x) (sint y))"
proof (induction x y rule: GCD_go.induct)
  case (1 x y)
  show ?case
  proof (cases "y = 0")
    case True
    then show ?thesis by (simp add: GCD_go.simps abs_go_eq)
  next
    case False
    with "1" have "GCD_go y (rem x y) = word_of_int (gcd (sint y) (sint (rem x y)))"
      by simp
    with False show ?thesis
      by (subst GCD_go.simps) (simp add: sint_rem gcd_smod)
  qed
qed

lemma gcd_sint_bound: "0 \<le> gcd (sint (x :: go_int)) (sint (y :: go_int)) \<and> gcd (sint x) (sint y) \<le> 2 ^ 63"
proof (cases "x = 0")
  case True
  then show ?thesis using sint_range [of y] by (auto simp: abs_if)
next
  case False
  then have "sint x \<noteq> 0" by (rule sint_ne_0)
  then have "0 < \<bar>sint x\<bar>" by simp
  then have "gcd \<bar>sint x\<bar> (sint y) \<le> \<bar>sint x\<bar>" by (rule gcd_le1_int)
  then have "gcd (sint x) (sint y) \<le> \<bar>sint x\<bar>" by simp
  then show ?thesis using sint_range [of x] by auto
qed

lemma word_of_int_eq_0: "0 \<le> k \<Longrightarrow> k \<le> 2 ^ 63 \<Longrightarrow> (word_of_int k :: go_int) = 0 \<longleftrightarrow> k = 0"
  by (auto simp add: word_of_int_eq_0_iff dest: zdvd_imp_le)

lemma GCD_go_eq_0: "GCD_go x y = 0 \<longleftrightarrow> x = 0 \<and> y = 0"
proof -
  have "GCD_go x y = 0 \<longleftrightarrow> gcd (sint x) (sint y) = 0"
    using gcd_sint_bound [of x y] by (simp add: GCD_go_eq word_of_int_eq_0)
  then show ?thesis by (simp add: signed_eq_0_iff)
qed

lemma MinInt_neg: "- MinInt = MinInt"
  by (simp add: MinInt_def)

text \<open>Arithmetic that does not wrap.\<close>

lemma sint_of_fits: "fits k \<Longrightarrow> sint (word_of_int k :: go_int) = k"
  by (simp add: fits_def sint_word_of_int_id)

lemma sint_mult_fits: "fits (sint a * sint b) \<Longrightarrow> sint (a * b :: go_int) = sint a * sint b"
proof -
  assume f: "fits (sint a * sint b)"
  have "a * b = word_of_int (sint a * sint b)" by simp
  then show ?thesis using sint_of_fits [OF f] by simp
qed

lemma abs_sint_minus: "\<bar>sint (- w :: go_int)\<bar> = \<bar>sint w\<bar>"
proof (cases "w = MinInt")
  case True
  then show ?thesis by (simp add: MinInt_neg)
next
  case False
  have "sint w \<noteq> - (2 ^ 63)"
  proof
    assume "sint w = - (2 ^ 63)"
    then have "word_of_int (sint w) = (word_of_int (- (2 ^ 63)) :: go_int)" by simp
    then show False using False by (simp add: MinInt_def)
  qed
  then have "fits (- sint w)" using sint_range [of w] by (simp add: fits_def)
  then have "sint (word_of_int (- sint w) :: go_int) = - sint w" by (rule sint_of_fits)
  then show ?thesis by simp
qed

lemma fits_abs: "\<bar>k\<bar> < 2 ^ 63 \<Longrightarrow> fits k"
  by (auto simp add: fits_def)

lemma sdiv_exact: "l dvd k \<Longrightarrow> (k :: int) sdiv l = k div l"
  by (simp add: signed_divide_int_eq_divide_int)

lemma abs_div_exact_le:
  fixes k g :: int
  assumes "g dvd k" "0 < g"
  shows "\<bar>k div g\<bar> \<le> \<bar>k\<bar>"
proof -
  have "k = (k div g) * g" using assms(1) by simp
  then have "\<bar>k\<bar> = \<bar>k div g\<bar> * g" using assms(2) by (metis abs_mult abs_of_pos)
  moreover have "\<bar>k div g\<bar> * 1 \<le> \<bar>k div g\<bar> * g"
    using assms(2) by (intro mult_left_mono) simp_all
  ultimately show ?thesis by simp
qed

lemma sint_tdiv_exact:
  assumes "sint d dvd sint a" "0 < sint d"
  shows "sint (tdiv a d) = sint a div sint d"
proof -
  have le: "\<bar>sint a div sint d\<bar> \<le> \<bar>sint a\<bar>" using assms by (rule abs_div_exact_le)
  have "sint a div sint d < 2 ^ 63"
  proof (cases "sint a < 0")
    case True
    then have "sint a div sint d \<le> 0 div sint d" using assms(2) by (intro zdiv_mono1) simp_all
    then show ?thesis by simp
  next
    case False
    with le show ?thesis using sint_range [of a] by auto
  qed
  moreover have "- (2 ^ 63) \<le> sint a div sint d" using le sint_range [of a] by auto
  ultimately have "fits (sint a div sint d)" by (simp add: fits_def)
  then show ?thesis using assms(1) by (simp add: tdiv_def sdiv_exact sint_of_fits)
qed

lemma sint_GCD_go:
  "gcd (sint x) (sint y) < 2 ^ 63 \<Longrightarrow> sint (GCD_go x y) = gcd (sint x) (sint y)"
proof -
  assume up: "gcd (sint x) (sint y) < 2 ^ 63"
  have "(- (2 ^ 63) :: int) \<le> 0" by simp
  also have "0 \<le> gcd (sint x) (sint y)" by simp
  finally have "fits (gcd (sint x) (sint y))" using up by (simp add: fits_def)
  then show ?thesis by (simp add: GCD_go_eq sint_of_fits)
qed

lemma sint_abs_go: "\<bar>sint w\<bar> < 2 ^ 63 \<Longrightarrow> sint (abs_go w) = \<bar>sint w\<bar>"
  by (simp add: abs_go_eq sint_of_fits fits_def)

lemma gcd_le_abs: "(a :: int) \<noteq> 0 \<Longrightarrow> gcd a b \<le> \<bar>a\<bar>"
proof -
  assume "a \<noteq> 0"
  then have "0 < \<bar>a\<bar>" by simp
  then have "gcd \<bar>a\<bar> b \<le> \<bar>a\<bar>" by (rule gcd_le1_int)
  then show ?thesis by simp
qed

lemma abs_scale:
  fixes q g k :: int
  assumes "0 < g"
  shows "\<bar>q * k\<bar> * g = \<bar>q * g * k\<bar>"
  using assms by (simp add: abs_mult abs_of_pos)

section \<open>Where the operations panic\<close>

text \<open>
  \<open>Assert\<close> panics exactly on a zero denominator and \<open>Reduce\<close> exactly on
  \<open>0/0\<close>; \<open>LCM\<close> never does.  \<open>NormTo\<close> and \<open>Norm\<close> panic exactly when the
  denominators differ and one that they divide by is zero.  The other
  operations contain no division.
\<close>

lemma fault_is: "(e :: fault) = DivideByZero"
  by (cases e) simp

lemma Assert_eq: "Assert x = (if D x = 0 then Inl DivideByZero else Inr x)"
  by (simp add: Assert_def quo_def)

lemma Reduce_fault_iff: "Reduce x = Inl DivideByZero \<longleftrightarrow> N x = 0 \<and> D x = 0"
  by (simp add: Reduce_def Let_def quo_def GCD_go_eq_0)

lemma Reduce_returns:
  "N x \<noteq> 0 \<or> D x \<noteq> 0 \<Longrightarrow>
   Reduce x =
     Inr (if tdiv (D x) (GCD_go (N x) (D x)) <s 0
          then \<lparr>N = - tdiv (N x) (GCD_go (N x) (D x)), D = - tdiv (D x) (GCD_go (N x) (D x))\<rparr>
          else \<lparr>N = tdiv (N x) (GCD_go (N x) (D x)), D = tdiv (D x) (GCD_go (N x) (D x))\<rparr>)"
  by (auto simp add: Reduce_def Let_def quo_def GCD_go_eq_0)

lemma LCM_go_returns:
  "LCM_go x y = Inr (if x = y \<or> x = - y then x else abs_go (tdiv x (GCD_go x y) * y))"
proof (cases "x = y \<or> x = - y")
  case True
  then show ?thesis by (auto simp add: LCM_go_def)
next
  case False
  then have "\<not> (x = 0 \<and> y = 0)" by auto
  then have "GCD_go x y \<noteq> 0" by (simp add: GCD_go_eq_0)
  with False show ?thesis by (simp add: LCM_go_def quo_def)
qed

lemma NormTo_fault_iff: "NormTo x y = Inl DivideByZero \<longleftrightarrow> D x \<noteq> D y \<and> D x = 0"
proof (cases "D x = D y")
  case True
  then show ?thesis by (simp add: NormTo_def)
next
  case ne: False
  show ?thesis
  proof (cases "D x = 0")
    case True
    with ne show ?thesis
      by (simp add: NormTo_def LCM_go_returns quo_def fault_is split: sum.splits)
  next
    case False
    then have "N x \<noteq> 0 \<or> D x \<noteq> 0" by simp
    from Reduce_returns [OF this] obtain rx where "Reduce x = Inr rx" by blast
    with ne False show ?thesis
      by (simp add: NormTo_def LCM_go_returns quo_def)
  qed
qed

lemma Norm_fault_iff:
  "Norm x y = Inl DivideByZero \<longleftrightarrow> D x \<noteq> D y \<and> (D x = 0 \<or> D y = 0)"
proof (cases "D x = D y")
  case True
  then show ?thesis by (simp add: Norm_def)
next
  case ne: False
  show ?thesis
  proof (cases "D x = 0 \<or> D y = 0")
    case True
    with ne show ?thesis
      by (auto simp add: Norm_def LCM_go_returns quo_def Let_def fault_is split: sum.splits)
  next
    case False
    then have "N x \<noteq> 0 \<or> D x \<noteq> 0" "N y \<noteq> 0 \<or> D y \<noteq> 0" by simp_all
    from Reduce_returns [OF this(1)] Reduce_returns [OF this(2)]
    obtain rx ry where "Reduce x = Inr rx" "Reduce y = Inr ry" by blast
    with ne False show ?thesis
      by (simp add: Norm_def LCM_go_returns quo_def Let_def)
  qed
qed

text \<open>
  C2.  A fraction with a zero denominator and a non-zero numerator makes both
  \<open>NormTo\<close> and \<open>Norm\<close> panic, at the division \<open>m / x.D\<close>.
\<close>

theorem NormTo_zero_denominator_faults:
  "NormTo \<lparr>N = 1, D = 0\<rparr> \<lparr>N = 1, D = 2\<rparr> = Inl DivideByZero \<and>
   Norm \<lparr>N = 1, D = 0\<rparr> \<lparr>N = 1, D = 2\<rparr> = Inl DivideByZero"
  by code_simp

section \<open>Wrap-around at the smallest integer\<close>

text \<open>
  C10.  The negation of the smallest \<open>int\<close> wraps around to itself, so \<open>abs\<close>
  returns it unchanged; a field of \<open>x\<close> that holds it comes back from \<open>Abs\<close>
  unchanged, and negative.
\<close>

theorem Abs_MinInt_wraps:
  "- MinInt = MinInt \<and> abs_go MinInt = MinInt \<and>
   (N x = MinInt \<longrightarrow> N (Abs x) = N x \<and> N (Abs x) <s 0) \<and>
   (D x = MinInt \<longrightarrow> D (Abs x) = D x \<and> D (Abs x) <s 0)"
  by (auto simp add: Abs_def abs_go_def Let_def MinInt_def word_sless_alt)

theorem Abs_MinInt_wraps_witness:
  "N \<lparr>N = MinInt, D = MinInt\<rparr> = MinInt \<and> D \<lparr>N = MinInt, D = MinInt\<rparr> = MinInt \<and>
   Abs \<lparr>N = MinInt, D = MinInt\<rparr> = \<lparr>N = MinInt, D = MinInt\<rparr> \<and>
   sint (N (Abs \<lparr>N = MinInt, D = MinInt\<rparr>)) = - 9223372036854775808"
  using Abs_MinInt_wraps [of "\<lparr>N = MinInt, D = MinInt\<rparr>"]
  by (simp add: Abs_def Let_def MinInt_def word_sless_alt)

section \<open>Termination of the Euclidean loop\<close>

text \<open>
  C9.  The loop of \<open>GCD\<close> returns on every pair of inputs, with the value of
  the total function \<open>GCD_go\<close>: each iteration replaces \<open>y\<close> by a remainder of
  strictly smaller magnitude.
\<close>

theorem GCD_terminates:
  "GCD_loop x y = Some (GCD_go x y) \<and> (y \<noteq> 0 \<longrightarrow> \<bar>sint (rem x y)\<bar> < \<bar>sint y\<bar>)"
proof
  show "GCD_loop x y = Some (GCD_go x y)"
  proof (induction x y rule: GCD_go.induct)
    case (1 x y)
    show ?case
    proof (cases "y = 0")
      case True
      then show ?thesis by (simp add: GCD_loop.simps GCD_go.simps)
    next
      case False
      with "1" have "GCD_loop y (rem x y) = Some (GCD_go y (rem x y))" by simp
      with False show ?thesis
        by (subst GCD_loop.simps, subst GCD_go.simps) simp
    qed
  qed
  show "y \<noteq> 0 \<longrightarrow> \<bar>sint (rem x y)\<bar> < \<bar>sint y\<bar>"
    by (simp add: rem_decreases)
qed

theorem GCD_terminates_witness:
  "GCD_loop (- 12) 18 = Some 6 \<and> (18 :: go_int) \<noteq> 0 \<and>
   \<bar>sint (rem (- 12) 18)\<bar> < \<bar>sint (18 :: go_int)\<bar>"
proof -
  have g: "GCD_go (- 12) 18 = 6" by code_simp
  have r: "rem (- 12) 18 = - 12" by (simp add: rem_def signed_modulo_int_def)
  show ?thesis using GCD_terminates [of "- 12" 18] by (simp add: g r)
qed

section \<open>Growth of denominators\<close>

lemma abs_mult_ge:
  fixes a b :: int
  assumes "a \<noteq> 0" "b \<noteq> 0"
  shows "max \<bar>a\<bar> \<bar>b\<bar> \<le> \<bar>a * b\<bar>"
proof -
  have a: "1 \<le> \<bar>a\<bar>" and b: "1 \<le> \<bar>b\<bar>" using assms by auto
  have "\<bar>a\<bar> * 1 \<le> \<bar>a\<bar> * \<bar>b\<bar>" using b by (intro mult_left_mono) simp_all
  moreover have "1 * \<bar>b\<bar> \<le> \<bar>a\<bar> * \<bar>b\<bar>" using a by (intro mult_right_mono) simp_all
  ultimately show ?thesis by (simp add: abs_mult)
qed

lemma grows_product:
  assumes "D x \<noteq> 0" "D y \<noteq> 0" "fits (sint (D x) * sint (D y))" "D r = D x * D y"
  shows "denominator_grows x y r"
proof -
  have "sint (D r) = sint (D x) * sint (D y)" using assms by (simp add: sint_mult_fits)
  moreover have "sint (D x) \<noteq> 0" "sint (D y) \<noteq> 0" using assms by (simp_all add: sint_ne_0)
  ultimately show ?thesis
    unfolding denominator_grows_def using abs_mult_ge by simp
qed

text \<open>
  What does hold: for \<open>Add\<close> and \<open>Sub\<close> with equal denominators, and for
  \<open>Add\<close>, \<open>Sub\<close> and \<open>Mul\<close> with non-zero denominators whose product does
  not wrap, the denominator of the result is at least as large in magnitude
  as both operands' denominators.
\<close>

lemma Add_Sub_Mul_denominators_grow:
  "(D x = D y \<or> D x \<noteq> 0 \<and> D y \<noteq> 0 \<and> fits (sint (D x) * sint (D y)) \<longrightarrow>
      denominator_grows x y (Add x y) \<and> denominator_grows x y (Sub x y)) \<and>
   (D x \<noteq> 0 \<and> D y \<noteq> 0 \<and> fits (sint (D x) * sint (D y)) \<longrightarrow>
      denominator_grows x y (Mul x y))"
proof (intro conjI impI)
  assume h: "D x = D y \<or> D x \<noteq> 0 \<and> D y \<noteq> 0 \<and> fits (sint (D x) * sint (D y))"
  show "denominator_grows x y (Add x y)"
  proof (cases "D x = D y")
    case True
    then show ?thesis by (simp add: Add_def denominator_grows_def)
  next
    case False
    with h show ?thesis by (intro grows_product) (simp_all add: Add_def Let_def)
  qed
  show "denominator_grows x y (Sub x y)"
  proof (cases "D x = D y")
    case True
    then show ?thesis by (simp add: Sub_def denominator_grows_def)
  next
    case False
    with h show ?thesis by (intro grows_product) (simp_all add: Sub_def Let_def)
  qed
next
  assume "D x \<noteq> 0 \<and> D y \<noteq> 0 \<and> fits (sint (D x) * sint (D y))"
  then show "denominator_grows x y (Mul x y)"
    by (intro grows_product) (simp_all add: Mul_def)
qed

text \<open>
  C1.  \<open>Div\<close> breaks the growth of denominators on ordinary operands, with no
  zero, no negative field and no wrap: \<open>(1/1).Div(1/5)\<close> is \<open>5/1\<close>, whose
  denominator 1 is below the denominator 5 of the divisor.
\<close>

theorem Div_denominator_shrinks:
  "Div \<lparr>N = 1, D = 1\<rparr> \<lparr>N = 1, D = 5\<rparr> = \<lparr>N = 5, D = 1\<rparr> \<and>
   \<not> denominator_grows \<lparr>N = 1, D = 1\<rparr> \<lparr>N = 1, D = 5\<rparr> (Div \<lparr>N = 1, D = 1\<rparr> \<lparr>N = 1, D = 5\<rparr>)"
  by (simp add: denominator_grows_def Div_def word_sless_alt)

section \<open>Pairwise normalization\<close>

text \<open>
  What \<open>Norm\<close> computes.  It returns both fractions unchanged when the
  denominators are equal.  Otherwise, when neither denominator is zero, with
  \<open>m0\<close> the \<open>LCM\<close> of the denominators of the two reduced fractions and \<open>m\<close>
  its sequential clamp (\<open>x.D\<close> if \<open>m0 <= x.D\<close>, else \<open>y.D\<close> if \<open>m0 < y.D\<close>,
  else \<open>m0\<close>), it returns \<open>(m/x.D * x.N, m)\<close> and \<open>(m/y.D * y.N, m)\<close>; when
  one of two different denominators is zero it panics.  In particular
  \<open>Norm(F{12,2}, F{3,4}) = (F{24,4}, F{3,4})\<close>.
\<close>

lemma Norm_algorithm:
  "(D x = D y \<longrightarrow> Norm x y = Inr (x, y)) \<and>
   (D x \<noteq> D y \<and> D x \<noteq> 0 \<and> D y \<noteq> 0 \<longrightarrow>
      (\<exists>rx ry m0.
         Reduce x = Inr rx \<and> Reduce y = Inr ry \<and> LCM_go (D rx) (D ry) = Inr m0 \<and>
         (let m = (if m0 \<le>s D x then D x else if m0 <s D y then D y else m0)
          in Norm x y =
               Inr (\<lparr>N = tdiv m (D x) * N x, D = m\<rparr>, \<lparr>N = tdiv m (D y) * N y, D = m\<rparr>)))) \<and>
   (D x \<noteq> D y \<and> (D x = 0 \<or> D y = 0) \<longrightarrow> Norm x y = Inl DivideByZero) \<and>
   Norm \<lparr>N = 12, D = 2\<rparr> \<lparr>N = 3, D = 4\<rparr> = Inr (\<lparr>N = 24, D = 4\<rparr>, \<lparr>N = 3, D = 4\<rparr>)"
proof (intro conjI impI)
  assume "D x = D y"
  then show "Norm x y = Inr (x, y)" by (simp add: Norm_def)
next
  assume h: "D x \<noteq> D y \<and> D x \<noteq> 0 \<and> D y \<noteq> 0"
  then have "N x \<noteq> 0 \<or> D x \<noteq> 0" "N y \<noteq> 0 \<or> D y \<noteq> 0" by simp_all
  from Reduce_returns [OF this(1)] Reduce_returns [OF this(2)]
  obtain rx ry where r: "Reduce x = Inr rx" "Reduce y = Inr ry" by blast
  obtain m0 where m0: "LCM_go (D rx) (D ry) = Inr m0" using LCM_go_returns by blast
  let ?m = "if m0 \<le>s D x then D x else if m0 <s D y then D y else m0"
  have "Norm x y =
          Inr (\<lparr>N = tdiv ?m (D x) * N x, D = ?m\<rparr>, \<lparr>N = tdiv ?m (D y) * N y, D = ?m\<rparr>)"
    using h r m0 by (simp add: Norm_def quo_def Let_def)
  with r m0 show "\<exists>rx ry m0.
         Reduce x = Inr rx \<and> Reduce y = Inr ry \<and> LCM_go (D rx) (D ry) = Inr m0 \<and>
         (let m = (if m0 \<le>s D x then D x else if m0 <s D y then D y else m0)
          in Norm x y =
               Inr (\<lparr>N = tdiv m (D x) * N x, D = m\<rparr>, \<lparr>N = tdiv m (D y) * N y, D = m\<rparr>))"
    unfolding Let_def by blast
next
  assume "D x \<noteq> D y \<and> (D x = 0 \<or> D y = 0)"
  then show "Norm x y = Inl DivideByZero" by (simp add: Norm_fault_iff)
next
  show "Norm \<lparr>N = 12, D = 2\<rparr> \<lparr>N = 3, D = 4\<rparr> = Inr (\<lparr>N = 24, D = 4\<rparr>, \<lparr>N = 3, D = 4\<rparr>)"
    by code_simp
qed

text \<open>
  C3.  \<open>Norm\<close> does not return for every two fractions: for \<open>3/4\<close> and \<open>1/0\<close>
  both reductions return, the \<open>LCM\<close> of the reduced denominators 4 and 0 is 0,
  the clamp raises it to \<open>x.D = 4\<close>, and the division \<open>m / y.D\<close> panics.
\<close>

theorem Norm_faults_instead_of_returning:
  "Reduce \<lparr>N = 3, D = 4\<rparr> = Inr \<lparr>N = 3, D = 4\<rparr> \<and>
   Reduce \<lparr>N = 1, D = 0\<rparr> = Inr \<lparr>N = 1, D = 0\<rparr> \<and>
   LCM_go 4 0 = Inr 0 \<and>
   Norm \<lparr>N = 3, D = 4\<rparr> \<lparr>N = 1, D = 0\<rparr> = Inl DivideByZero"
proof -
  have a: "Reduce \<lparr>N = 3, D = 4\<rparr> = Inr \<lparr>N = 3, D = 4\<rparr>" by code_simp
  have b: "Reduce \<lparr>N = 1, D = 0\<rparr> = Inr \<lparr>N = 1, D = 0\<rparr>" by code_simp
  have c: "LCM_go 4 0 = Inr 0" by code_simp
  have d: "Norm \<lparr>N = 3, D = 4\<rparr> \<lparr>N = 1, D = 0\<rparr> = Inl DivideByZero" by code_simp
  show ?thesis by (intro conjI a b c d)
qed

section \<open>Comparison\<close>

text \<open>
  C6, as stated, fails where a cross product wraps: with positive
  denominators, \<open>Cmp(2^62/1, 0/2)\<close> is \<open>-1\<close> although the difference of the
  cross products is positive.
\<close>

theorem Cmp_counterexample:
  "0 <s D \<lparr>N = 4611686018427387904, D = 1\<rparr> \<and> 0 <s D \<lparr>N = 0, D = 2\<rparr> \<and>
   Cmp \<lparr>N = 4611686018427387904, D = 1\<rparr> \<lparr>N = 0, D = 2\<rparr> = - 1 \<and>
   sint (N \<lparr>N = 4611686018427387904, D = 1\<rparr>) * sint (D \<lparr>N = 0, D = 2\<rparr>)
     - sint (N \<lparr>N = 0, D = 2\<rparr>) * sint (D \<lparr>N = 4611686018427387904, D = 1\<rparr>) = 2 ^ 63"
  by (simp add: Cmp_def Let_def word_sless_alt)

text \<open>
  C6, amended.  For positive denominators, \<open>Cmp\<close> returns the sign of
  \<open>x.N*y.D - y.N*x.D\<close> as \<open>-1\<close>, \<open>0\<close> or \<open>+1\<close>, provided that, when the
  denominators differ, neither cross product wraps.
\<close>

theorem Cmp_sign:
  assumes "0 <s D x" and "0 <s D y"
    and "D x \<noteq> D y \<longrightarrow> fits (sint (N x) * sint (D y)) \<and> fits (sint (N y) * sint (D x))"
  shows "Cmp x y = sign_of (sint (N x) * sint (D y) - sint (N y) * sint (D x))"
proof (cases "D x = D y")
  case True
  have dy: "0 < sint (D y)" using assms(2) by (simp add: word_sless_alt)
  have "sint (N x) * sint (D y) - sint (N y) * sint (D y) = (sint (N x) - sint (N y)) * sint (D y)"
    by (simp add: algebra_simps)
  then have "sign_of (sint (N x) * sint (D y) - sint (N y) * sint (D x))
             = sign_of ((sint (N x) - sint (N y)) * sint (D y))"
    using True by simp
  also have "\<dots> = sign_of (sint (N x) - sint (N y))"
    using dy by (simp add: sign_of_def zero_less_mult_iff mult_less_0_iff)
  also have "\<dots> = Cmp x y"
    using True by (simp add: Cmp_def sign_of_def word_sless_alt)
  finally show ?thesis by simp
next
  case False
  with assms(3) have "sint (N x * D y) = sint (N x) * sint (D y)"
    "sint (N y * D x) = sint (N y) * sint (D x)"
    by (simp_all add: sint_mult_fits)
  with False show ?thesis
    by (simp add: Cmp_def Let_def sign_of_def word_sless_alt)
qed

theorem Cmp_sign_witness:
  "0 <s D \<lparr>N = 1, D = 2\<rparr> \<and> 0 <s D \<lparr>N = 2, D = 3\<rparr> \<and>
   D \<lparr>N = 1, D = 2\<rparr> \<noteq> D \<lparr>N = 2, D = 3\<rparr> \<and>
   fits (sint (N \<lparr>N = 1, D = 2\<rparr>) * sint (D \<lparr>N = 2, D = 3\<rparr>)) \<and>
   fits (sint (N \<lparr>N = 2, D = 3\<rparr>) * sint (D \<lparr>N = 1, D = 2\<rparr>)) \<and>
   Cmp \<lparr>N = 1, D = 2\<rparr> \<lparr>N = 2, D = 3\<rparr> = - 1"
  using Cmp_sign [of "\<lparr>N = 1, D = 2\<rparr>" "\<lparr>N = 2, D = 3\<rparr>"]
  by (simp add: fits_def sign_of_def word_sless_alt)

section \<open>The product of LCM and GCD\<close>

text \<open>
  C8, as stated, fails where a product wraps: for \<open>a = 2^32\<close> and
  \<open>b = 2^32 + 2\<close>, neither zero and of different magnitudes, \<open>GCD\<close> is 2 and
  \<open>LCM\<close> is \<open>2^63 - 2^32\<close>, whose product with 2 wraps to \<open>-2^33\<close>, while
  \<open>a * b\<close> wraps to \<open>2^33\<close> and the product of the integers is
  \<open>2^64 + 2^33\<close>.
\<close>

theorem LCM_GCD_counterexample:
  "(4294967296 :: go_int) \<noteq> 0 \<and> (4294967298 :: go_int) \<noteq> 0 \<and>
   \<bar>sint (4294967296 :: go_int)\<bar> \<noteq> \<bar>sint (4294967298 :: go_int)\<bar> \<and>
   GCD_go 4294967296 4294967298 = 2 \<and>
   LCM_go 4294967296 4294967298 = Inr 9223372032559808512 \<and>
   (9223372032559808512 :: go_int) * 2 = - 8589934592 \<and>
   abs_go (4294967296 * 4294967298) = 8589934592 \<and>
   \<bar>sint (4294967296 :: go_int) * sint (4294967298 :: go_int)\<bar> = 18446744082299486208"
proof -
  have g: "GCD_go 4294967296 4294967298 = 2" by code_simp
  have l: "LCM_go 4294967296 4294967298 = Inr 9223372032559808512" by code_simp
  have a: "abs_go (4294967296 * 4294967298) = 8589934592" by code_simp
  show ?thesis using g l a by simp
qed

text \<open>
  C8, amended.  For \<open>a\<close> and \<open>b\<close> non-zero, of different magnitudes and with
  \<open>|a * b|\<close> below \<open>2^63\<close>, \<open>LCM\<close> returns and its product with \<open>GCD\<close> is
  \<open>|a * b|\<close>, without wrapping.  When \<open>a == b\<close> or \<open>a == -b\<close>, \<open>LCM\<close> returns
  \<open>a\<close> itself.
\<close>

theorem LCM_times_GCD:
  "(a \<noteq> 0 \<and> b \<noteq> 0 \<and> \<bar>sint a\<bar> \<noteq> \<bar>sint b\<bar> \<and> \<bar>sint a * sint b\<bar> < 2 ^ 63 \<longrightarrow>
      (\<exists>l. LCM_go a b = Inr l \<and>
           sint l * sint (GCD_go a b) = \<bar>sint a * sint b\<bar> \<and>
           sint (l * GCD_go a b) = \<bar>sint a * sint b\<bar>)) \<and>
   (a = b \<or> a = - b \<longrightarrow> LCM_go a b = Inr a)"
proof (intro conjI impI)
  assume "a = b \<or> a = - b"
  then show "LCM_go a b = Inr a" by (simp add: LCM_go_returns)
next
  assume h: "a \<noteq> 0 \<and> b \<noteq> 0 \<and> \<bar>sint a\<bar> \<noteq> \<bar>sint b\<bar> \<and> \<bar>sint a * sint b\<bar> < 2 ^ 63"
  let ?A = "sint a" and ?B = "sint b"
  let ?g = "gcd ?A ?B"
  let ?q = "?A div ?g"
  from h have A0: "?A \<noteq> 0" and B0: "?B \<noteq> 0" by (simp_all add: sint_ne_0)
  from h have ne: "a \<noteq> b" "a \<noteq> - b" by (auto simp add: abs_sint_minus)
  have ab: "\<bar>?A * ?B\<bar> < 2 ^ 63" using h by simp
  have gpos: "0 < ?g" using A0 by (simp add: gcd_pos_int)
  have "\<bar>?A\<bar> * 1 \<le> \<bar>?A\<bar> * \<bar>?B\<bar>" using B0 by (intro mult_left_mono) simp_all
  then have A_lt: "\<bar>?A\<bar> < 2 ^ 63" using ab by (simp add: abs_mult)
  have "?g \<le> \<bar>?A\<bar>" using A0 by (rule gcd_le_abs)
  then have g_lt: "?g < 2 ^ 63" using A_lt by simp
  then have sg: "sint (GCD_go a b) = ?g" by (rule sint_GCD_go)
  have sq: "sint (tdiv a (GCD_go a b)) = ?q"
    using sint_tdiv_exact [of "GCD_go a b" a] gpos by (simp add: sg)
  have qg: "?q * ?g = ?A" by simp
  have g1: "1 \<le> ?g" using gpos by linarith
  have "\<bar>?q * ?B\<bar> * 1 \<le> \<bar>?q * ?B\<bar> * ?g" by (rule mult_left_mono [OF g1]) simp
  also have "\<bar>?q * ?B\<bar> * ?g = \<bar>?q * ?g * ?B\<bar>" using gpos by (rule abs_scale)
  also have "\<dots> = \<bar>?A * ?B\<bar>" by (simp only: qg)
  finally have qB_le: "\<bar>?q * ?B\<bar> \<le> \<bar>?A * ?B\<bar>" by simp
  then have qB: "\<bar>?q * ?B\<bar> < 2 ^ 63" using ab by simp
  then have "fits (sint (tdiv a (GCD_go a b)) * ?B)" by (simp add: sq fits_abs)
  then have sqb: "sint (tdiv a (GCD_go a b) * b) = ?q * ?B" by (simp add: sint_mult_fits sq)
  let ?l = "abs_go (tdiv a (GCD_go a b) * b)"
  have sl: "sint ?l = \<bar>?q * ?B\<bar>" using qB by (simp add: sint_abs_go sqb)
  have lg: "sint ?l * sint (GCD_go a b) = \<bar>?A * ?B\<bar>"
  proof -
    have "sint ?l * sint (GCD_go a b) = \<bar>?q * ?B\<bar> * ?g" by (simp add: sl sg)
    also have "\<dots> = \<bar>?q * ?g * ?B\<bar>" using gpos by (rule abs_scale)
    also have "\<dots> = \<bar>?A * ?B\<bar>" by (simp only: qg)
    finally show ?thesis .
  qed
  then have "fits (sint ?l * sint (GCD_go a b))" using ab by (simp add: fits_abs)
  then have "sint (?l * GCD_go a b) = sint ?l * sint (GCD_go a b)" by (rule sint_mult_fits)
  with lg have lg2: "sint (?l * GCD_go a b) = \<bar>?A * ?B\<bar>" by simp
  have "LCM_go a b = Inr ?l" using ne by (simp add: LCM_go_returns)
  with lg lg2 show "\<exists>l. LCM_go a b = Inr l \<and>
           sint l * sint (GCD_go a b) = \<bar>sint a * sint b\<bar> \<and>
           sint (l * GCD_go a b) = \<bar>sint a * sint b\<bar>" by blast
qed

theorem LCM_times_GCD_witness:
  "(- 3 :: go_int) \<noteq> 0 \<and> (5 :: go_int) \<noteq> 0 \<and> \<bar>sint (- 3 :: go_int)\<bar> \<noteq> \<bar>sint (5 :: go_int)\<bar> \<and>
   \<bar>sint (- 3 :: go_int) * sint (5 :: go_int)\<bar> < 2 ^ 63 \<and>
   LCM_go (- 3) 5 = Inr 15 \<and> GCD_go (- 3) 5 = 1 \<and>
   sint (15 * 1 :: go_int) = \<bar>sint (- 3 :: go_int) * sint (5 :: go_int)\<bar> \<and>
   LCM_go (- 4) 4 = Inr (- 4)"
proof -
  have g: "GCD_go (- 3) 5 = 1" by code_simp
  have l: "LCM_go (- 3) 5 = Inr 15" by code_simp
  show ?thesis
    using LCM_times_GCD [of "- 3" 5] LCM_times_GCD [of "- 4" 4] by (simp add: g l)
qed

section \<open>Reduction to lowest terms\<close>

text \<open>A fraction in lowest terms with a non-negative denominator is a fixed point.\<close>

lemma tdiv_one: "tdiv w 1 = w"
  by (simp add: tdiv_def)

lemma Reduce_lowest:
  assumes "gcd (sint (N r)) (sint (D r)) = 1" "0 \<le> sint (D r)"
  shows "Reduce r = Inr r"
proof -
  have g: "GCD_go (N r) (D r) = 1" using assms(1) by (simp add: GCD_go_eq)
  then have "N r \<noteq> 0 \<or> D r \<noteq> 0" using GCD_go_eq_0 [of "N r" "D r"] by auto
  from Reduce_returns [OF this] show ?thesis
    using assms(2) by (simp add: g tdiv_one word_sless_alt)
qed

lemma gcd_sint_minus1: "gcd (sint (- w :: go_int)) k = gcd (sint w) k"
proof -
  have "gcd (sint (- w)) k = gcd \<bar>sint (- w)\<bar> k" by simp
  also have "\<dots> = gcd \<bar>sint w\<bar> k" by (simp only: abs_sint_minus)
  finally show ?thesis by simp
qed

lemma gcd_sint_minus2: "gcd k (sint (- w :: go_int)) = gcd k (sint w)"
  using gcd_sint_minus1 [of w k] by (simp add: gcd.commute)

lemma sint_minus: "sint w \<noteq> - (2 ^ 63) \<Longrightarrow> sint (- w :: go_int) = - sint w"
proof -
  assume "sint w \<noteq> - (2 ^ 63)"
  then have "fits (- sint w)" using sint_range [of w] by (simp add: fits_def)
  then have "sint (word_of_int (- sint w) :: go_int) = - sint w" by (rule sint_of_fits)
  then show ?thesis by simp
qed

text \<open>The quotients by the gcd, when the gcd is representable.\<close>

lemma sint_tdiv_GCD:
  assumes "N x \<noteq> 0 \<or> D x \<noteq> 0" "gcd (sint (N x)) (sint (D x)) < 2 ^ 63"
  shows "sint (tdiv (N x) (GCD_go (N x) (D x))) = sint (N x) div gcd (sint (N x)) (sint (D x))"
    and "sint (tdiv (D x) (GCD_go (N x) (D x))) = sint (D x) div gcd (sint (N x)) (sint (D x))"
proof -
  have sg: "sint (GCD_go (N x) (D x)) = gcd (sint (N x)) (sint (D x))"
    using assms(2) by (rule sint_GCD_go)
  have "sint (N x) \<noteq> 0 \<or> sint (D x) \<noteq> 0" using assms(1) sint_ne_0 by blast
  then have gpos: "0 < gcd (sint (N x)) (sint (D x))" by (simp add: gcd_pos_int)
  show "sint (tdiv (N x) (GCD_go (N x) (D x))) = sint (N x) div gcd (sint (N x)) (sint (D x))"
    using sint_tdiv_exact [of "GCD_go (N x) (D x)" "N x"] gpos by (simp add: sg)
  show "sint (tdiv (D x) (GCD_go (N x) (D x))) = sint (D x) div gcd (sint (N x)) (sint (D x))"
    using sint_tdiv_exact [of "GCD_go (N x) (D x)" "D x"] gpos by (simp add: sg)
qed

lemma multiple_of_2_63:
  assumes "(2 ^ 63 :: int) dvd sint (w :: go_int)"
  shows "w = 0 \<or> w = MinInt"
proof -
  from assms obtain k where k: "sint w = 2 ^ 63 * k" by (rule dvdE)
  have "- (2 ^ 63) \<le> sint w" "sint w < 2 ^ 63" using sint_range [of w] by simp_all
  with k have "k = 0 \<or> k = - 1" by auto
  then have "sint w = 0 \<or> sint w = - (2 ^ 63)" using k by auto
  then show ?thesis
  proof
    assume "sint w = 0"
    then show ?thesis by (simp add: signed_eq_0_iff)
  next
    assume "sint w = - (2 ^ 63)"
    then have "word_of_int (sint w) = (word_of_int (- (2 ^ 63)) :: go_int)" by (simp only:)
    then have "w = MinInt" unfolding MinInt_def by simp
    then show ?thesis by simp
  qed
qed

lemma Reduce_idem_big:
  assumes "x = \<lparr>N = n, D = d\<rparr>" "n = 0 \<or> n = MinInt" "d = 0 \<or> d = MinInt" "n \<noteq> 0 \<or> d \<noteq> 0"
  shows "\<exists>r. Reduce x = Inr r \<and> Reduce r = Inr r"
proof -
  have a: "Reduce \<lparr>N = MinInt, D = 0\<rparr> = Inr \<lparr>N = 1, D = 0\<rparr>"
    unfolding MinInt_def by code_simp
  have b: "Reduce \<lparr>N = 0, D = MinInt\<rparr> = Inr \<lparr>N = 0, D = 1\<rparr>"
    unfolding MinInt_def by code_simp
  have c: "Reduce \<lparr>N = MinInt, D = MinInt\<rparr> = Inr \<lparr>N = 1, D = 1\<rparr>"
    unfolding MinInt_def by code_simp
  have a': "Reduce \<lparr>N = 1, D = 0\<rparr> = Inr \<lparr>N = 1, D = 0\<rparr>" by code_simp
  have b': "Reduce \<lparr>N = 0, D = 1\<rparr> = Inr \<lparr>N = 0, D = 1\<rparr>" by code_simp
  have c': "Reduce \<lparr>N = 1, D = 1\<rparr> = Inr \<lparr>N = 1, D = 1\<rparr>" by code_simp
  from assms(2-4) consider "n = MinInt \<and> d = 0" | "n = 0 \<and> d = MinInt" | "n = MinInt \<and> d = MinInt"
    by auto
  then show ?thesis
  proof cases
    case 1 then show ?thesis using a a' assms(1) by simp
  next
    case 2 then show ?thesis using b b' assms(1) by simp
  next
    case 3 then show ?thesis using c c' assms(1) by simp
  qed
qed

text \<open>
  C4, as stated, fails at the smallest denominator: \<open>Reduce\<close> of \<open>1/MinInt\<close>
  negates both fields, the denominator wraps to \<open>MinInt\<close> again, and a second
  \<open>Reduce\<close> negates the numerator back.
\<close>

theorem Reduce_counterexample:
  "Reduce \<lparr>N = 1, D = MinInt\<rparr> = Inr \<lparr>N = - 1, D = MinInt\<rparr> \<and>
   Reduce \<lparr>N = - 1, D = MinInt\<rparr> = Inr \<lparr>N = 1, D = MinInt\<rparr> \<and>
   \<lparr>N = 1, D = MinInt\<rparr> \<noteq> \<lparr>N = - 1, D = MinInt\<rparr>"
proof -
  have a: "Reduce \<lparr>N = 1, D = MinInt\<rparr> = Inr \<lparr>N = - 1, D = MinInt\<rparr>"
    unfolding MinInt_def by code_simp
  have b: "Reduce \<lparr>N = - 1, D = MinInt\<rparr> = Inr \<lparr>N = 1, D = MinInt\<rparr>"
    unfolding MinInt_def by code_simp
  show ?thesis using a b by simp
qed

text \<open>
  C4, amended.  For every fraction \<open>x\<close> other than \<open>0/0\<close> (where \<open>Reduce\<close>
  panics), and unless \<open>x.D\<close> is the smallest \<open>int\<close> while \<open>x.N\<close> is odd,
  \<open>Reduce\<close> returns and \<open>x.Reduce().Reduce() == x.Reduce()\<close>.
\<close>

theorem Reduce_idempotent:
  assumes "N x \<noteq> 0 \<or> D x \<noteq> 0"
    and "\<not> (D x = MinInt \<and> odd (sint (N x)))"
  shows "\<exists>r. Reduce x = Inr r \<and> Reduce r = Inr r"
proof (cases "gcd (sint (N x)) (sint (D x)) < 2 ^ 63")
  case False
  with gcd_sint_bound [of "N x" "D x"] have g: "gcd (sint (N x)) (sint (D x)) = 2 ^ 63" by simp
  have "gcd (sint (N x)) (sint (D x)) dvd sint (N x)" "gcd (sint (N x)) (sint (D x)) dvd sint (D x)"
    by simp_all
  then have "(2 ^ 63 :: int) dvd sint (N x)" "(2 ^ 63 :: int) dvd sint (D x)"
    by (simp_all only: g)
  then have "N x = 0 \<or> N x = MinInt" "D x = 0 \<or> D x = MinInt"
    by (simp_all add: multiple_of_2_63)
  moreover have "x = \<lparr>N = N x, D = D x\<rparr>" by simp
  ultimately show ?thesis using assms(1) by (intro Reduce_idem_big [of x "N x" "D x"])
next
  case True
  let ?G = "GCD_go (N x) (D x)"
  let ?g = "gcd (sint (N x)) (sint (D x))"
  let ?n = "tdiv (N x) ?G" and ?d = "tdiv (D x) ?G"
  have sn: "sint ?n = sint (N x) div ?g" and sd: "sint ?d = sint (D x) div ?g"
    using sint_tdiv_GCD [OF assms(1) True] by simp_all
  have nz: "sint (N x) \<noteq> 0 \<or> sint (D x) \<noteq> 0" using assms(1) sint_ne_0 by blast
  then have cop: "gcd (sint ?n) (sint ?d) = 1"
    unfolding sn sd using div_gcd_coprime [of "sint (N x)" "sint (D x)"] by auto
  have red: "Reduce x = Inr (if ?d <s 0 then \<lparr>N = - ?n, D = - ?d\<rparr> else \<lparr>N = ?n, D = ?d\<rparr>)"
    using assms(1) by (rule Reduce_returns)
  show ?thesis
  proof (cases "?d <s 0")
    case False
    then have "0 \<le> sint (D \<lparr>N = ?n, D = ?d\<rparr>)" by (simp add: word_sless_alt)
    moreover have "gcd (sint (N \<lparr>N = ?n, D = ?d\<rparr>)) (sint (D \<lparr>N = ?n, D = ?d\<rparr>)) = 1"
      using cop by simp
    ultimately have "Reduce \<lparr>N = ?n, D = ?d\<rparr> = Inr \<lparr>N = ?n, D = ?d\<rparr>"
      by (intro Reduce_lowest)
    with red False show ?thesis by simp
  next
    case neg: True
    have dmin: "sint ?d \<noteq> - (2 ^ 63)"
    proof
      assume e: "sint ?d = - (2 ^ 63)"
      have gpos: "0 < ?g" using nz by (simp add: gcd_pos_int)
      have q: "sint (D x) div ?g = - (2 ^ 63)" using e sd by simp
      have "sint (D x) = (sint (D x) div ?g) * ?g" by simp
      also have "\<dots> = - (2 ^ 63) * ?g" by (simp only: q)
      finally have eq: "sint (D x) = - (2 ^ 63) * ?g" .
      have "?g = 1"
      proof (rule ccontr)
        assume "?g \<noteq> 1"
        with gpos have "2 \<le> ?g" by linarith
        then have "- (2 ^ 63) * ?g \<le> - (2 ^ 63) * 2" by simp
        with eq sint_range [of "D x"] show False by simp
      qed
      with eq have "sint (D x) = - (2 ^ 63)" by simp
      then have "word_of_int (sint (D x)) = (word_of_int (- (2 ^ 63)) :: go_int)" by (simp only:)
      then have dx: "D x = MinInt" unfolding MinInt_def by simp
      have "odd (sint (N x))"
      proof
        assume "even (sint (N x))"
        moreover have "even (sint (D x))" using \<open>sint (D x) = - (2 ^ 63)\<close> by simp
        ultimately have "2 dvd ?g" by simp
        with \<open>?g = 1\<close> show False by simp
      qed
      with dx assms(2) show False by simp
    qed
    then have sd': "sint (- ?d) = - sint ?d" by (rule sint_minus)
    have "0 \<le> sint (D \<lparr>N = - ?n, D = - ?d\<rparr>)" using neg by (simp add: sd' word_sless_alt)
    moreover have "gcd (sint (N \<lparr>N = - ?n, D = - ?d\<rparr>)) (sint (D \<lparr>N = - ?n, D = - ?d\<rparr>)) = 1"
      using cop by (simp add: gcd_sint_minus1 gcd_sint_minus2)
    ultimately have "Reduce \<lparr>N = - ?n, D = - ?d\<rparr> = Inr \<lparr>N = - ?n, D = - ?d\<rparr>"
      by (intro Reduce_lowest)
    with red neg show ?thesis by simp
  qed
qed

theorem Reduce_idempotent_witness:
  "N \<lparr>N = 12, D = - 18\<rparr> \<noteq> 0 \<and>
   \<not> (D \<lparr>N = 12, D = - 18\<rparr> = MinInt \<and> odd (sint (N \<lparr>N = 12, D = - 18\<rparr>))) \<and>
   Reduce \<lparr>N = 12, D = - 18\<rparr> = Inr \<lparr>N = - 2, D = 3\<rparr> \<and>
   Reduce \<lparr>N = - 2, D = 3\<rparr> = Inr \<lparr>N = - 2, D = 3\<rparr>"
proof -
  have a: "Reduce \<lparr>N = 12, D = - 18\<rparr> = Inr \<lparr>N = - 2, D = 3\<rparr>" by code_simp
  show ?thesis
    using Reduce_idempotent [of "\<lparr>N = 12, D = - 18\<rparr>"] by (simp add: a MinInt_def)
qed

section \<open>Adding and subtracting back\<close>

text \<open>
  Scaling both fields by a positive factor, without wrapping, does not change
  the reduced fraction.
\<close>

lemma Reduce_int:
  assumes "N x \<noteq> 0 \<or> D x \<noteq> 0" "gcd (sint (N x)) (sint (D x)) < 2 ^ 63"
  shows "Reduce x = Inr (lowest (sint (N x)) (sint (D x)))"
proof -
  let ?G = "GCD_go (N x) (D x)"
  let ?g = "gcd (sint (N x)) (sint (D x))"
  have sn: "sint (tdiv (N x) ?G) = sint (N x) div ?g"
    and sd: "sint (tdiv (D x) ?G) = sint (D x) div ?g"
    using sint_tdiv_GCD [OF assms] by simp_all
  have "word_of_int (sint (tdiv (N x) ?G)) = tdiv (N x) ?G" by simp
  then have wn: "tdiv (N x) ?G = word_of_int (sint (N x) div ?g)"
    by (simp only: sn)
  have "word_of_int (sint (tdiv (D x) ?G)) = tdiv (D x) ?G" by simp
  then have wd: "tdiv (D x) ?G = word_of_int (sint (D x) div ?g)"
    by (simp only: sd)
  have neg: "tdiv (D x) ?G <s 0 \<longleftrightarrow> sint (D x) div ?g < 0"
    by (simp add: word_sless_alt sd)
  show ?thesis
    unfolding Reduce_returns [OF assms(1)] lowest_def Let_def neg
    by (simp add: wn wd)
qed

lemma lowest_scale:
  assumes "0 < k"
  shows "lowest (a * k) (b * k) = lowest a b"
proof -
  have g: "gcd (a * k) (b * k) = gcd a b * k"
    using assms gcd_mult_distrib_int [of k a b] by (simp add: mult.commute)
  have "(a * k) div (gcd a b * k) = a div gcd a b" "(b * k) div (gcd a b * k) = b div gcd a b"
    using assms by simp_all
  then show ?thesis by (simp only: lowest_def g Let_def)
qed

lemma gcd_lt_bound:
  fixes a b :: int
  assumes "a \<noteq> 0 \<or> b \<noteq> 0" "\<bar>a\<bar> < m" "\<bar>b\<bar> < m"
  shows "gcd a b < m"
proof (cases "a = 0")
  case True
  with assms show ?thesis by simp
next
  case False
  then have "gcd a b \<le> \<bar>a\<bar>" by (rule gcd_le_abs)
  with assms(2) show ?thesis by simp
qed

lemma abs_le_scaled:
  fixes a k :: int
  assumes "0 < k"
  shows "\<bar>a\<bar> \<le> \<bar>a\<bar> * k"
proof -
  have "1 \<le> k" using assms by linarith
  then have "\<bar>a\<bar> * 1 \<le> \<bar>a\<bar> * k" by (intro mult_left_mono) simp_all
  then show ?thesis by simp
qed

lemma Reduce_scale:
  assumes "0 < sint k" "\<bar>sint (N x)\<bar> * sint k < 2 ^ 63" "\<bar>sint (D x)\<bar> * sint k < 2 ^ 63"
  shows "Reduce \<lparr>N = N x * k, D = D x * k\<rparr> = Reduce x"
proof (cases "N x = 0 \<and> D x = 0")
  case True
  then have "\<lparr>N = N x * k, D = D x * k\<rparr> = x" by simp
  then show ?thesis by simp
next
  case False
  let ?A = "sint (N x)" and ?B = "sint (D x)" and ?K = "sint k"
  let ?x' = "\<lparr>N = N x * k, D = D x * k\<rparr>"
  have nz: "?A \<noteq> 0 \<or> ?B \<noteq> 0" using False sint_ne_0 by blast
  have aK: "\<bar>?A * ?K\<bar> < 2 ^ 63" "\<bar>?B * ?K\<bar> < 2 ^ 63"
    using assms by (simp_all add: abs_mult)
  then have sN: "sint (N x * k) = ?A * ?K" and sD: "sint (D x * k) = ?B * ?K"
    by (simp_all add: sint_mult_fits fits_abs)
  have nz': "N ?x' \<noteq> 0 \<or> D ?x' \<noteq> 0"
  proof (rule ccontr)
    assume "\<not> (N ?x' \<noteq> 0 \<or> D ?x' \<noteq> 0)"
    then have "sint (N x * k) = 0" "sint (D x * k) = 0" by simp_all
    with sN sD assms(1) nz show False by auto
  qed
  have nzK: "?A * ?K \<noteq> 0 \<or> ?B * ?K \<noteq> 0" using nz assms(1) by auto
  have g': "gcd (sint (N ?x')) (sint (D ?x')) < 2 ^ 63"
    using gcd_lt_bound [OF nzK aK] by (simp add: sN sD)
  have "\<bar>?A\<bar> \<le> \<bar>?A\<bar> * ?K" "\<bar>?B\<bar> \<le> \<bar>?B\<bar> * ?K"
    using assms(1) by (simp_all add: abs_le_scaled)
  with assms(2,3) have "\<bar>?A\<bar> < 2 ^ 63" "\<bar>?B\<bar> < 2 ^ 63" by simp_all
  with nz have g: "gcd ?A ?B < 2 ^ 63" by (rule gcd_lt_bound)
  have "Reduce ?x' = Inr (lowest (sint (N ?x')) (sint (D ?x')))"
    using nz' g' by (rule Reduce_int)
  also have "\<dots> = Inr (lowest (?A * ?K) (?B * ?K))" by (simp add: sN sD)
  also have "\<dots> = Inr (lowest ?A ?B)" using assms(1) by (simp add: lowest_scale)
  also have "\<dots> = Reduce x" using False g by (simp add: Reduce_int)
  finally show ?thesis .
qed

lemma Reduce_neg_unit: "Reduce \<lparr>N = - n, D = - 1\<rparr> = Reduce \<lparr>N = n, D = 1\<rparr>"
proof -
  have g: "GCD_go (- n) (- 1) = 1" by (simp add: GCD_go_eq)
  have "Reduce \<lparr>N = - n, D = - 1\<rparr> = Inr \<lparr>N = n, D = 1\<rparr>"
    using Reduce_returns [of "\<lparr>N = - n, D = - 1\<rparr>"] by (simp add: g tdiv_one word_sless_alt)
  moreover have "Reduce \<lparr>N = n, D = 1\<rparr> = Inr \<lparr>N = n, D = 1\<rparr>"
    by (rule Reduce_lowest) simp_all
  ultimately show ?thesis by simp
qed

lemma Reduce_scale_unit:
  assumes "sint k \<noteq> 0" "\<bar>sint k\<bar> < 2 ^ 63" "\<bar>sint n\<bar> * \<bar>sint k\<bar> < 2 ^ 63"
  shows "Reduce \<lparr>N = n * k, D = k\<rparr> = Reduce \<lparr>N = n, D = 1\<rparr>"
proof (cases "0 < sint k")
  case True
  then have "Reduce \<lparr>N = N \<lparr>N = n, D = 1\<rparr> * k, D = D \<lparr>N = n, D = 1\<rparr> * k\<rparr> = Reduce \<lparr>N = n, D = 1\<rparr>"
    using assms by (intro Reduce_scale) simp_all
  then show ?thesis by simp
next
  case False
  with assms(1) have neg: "sint k < 0" by simp
  have "sint k \<noteq> - (2 ^ 63)" using assms(2) by auto
  then have sk: "sint (- k) = - sint k" by (rule sint_minus)
  have sn: "\<bar>sint (N \<lparr>N = - n, D = - 1\<rparr>)\<bar> = \<bar>sint n\<bar>" by (simp add: abs_sint_minus)
  have "Reduce \<lparr>N = N \<lparr>N = - n, D = - 1\<rparr> * (- k), D = D \<lparr>N = - n, D = - 1\<rparr> * (- k)\<rparr>
        = Reduce \<lparr>N = - n, D = - 1\<rparr>"
  proof (rule Reduce_scale)
    show "0 < sint (- k)" using neg by (simp add: sk)
    show "\<bar>sint (N \<lparr>N = - n, D = - 1\<rparr>)\<bar> * sint (- k) < 2 ^ 63"
    proof -
      have "\<bar>sint k\<bar> = - sint k" using neg by simp
      with assms(3) show ?thesis by (simp only: sn sk)
    qed
    show "\<bar>sint (D \<lparr>N = - n, D = - 1\<rparr>)\<bar> * sint (- k) < 2 ^ 63"
      using assms(2) neg by (simp add: sk)
  qed
  then have "Reduce \<lparr>N = n * k, D = k\<rparr> = Reduce \<lparr>N = - n, D = - 1\<rparr>" by simp
  then show ?thesis by (simp only: Reduce_neg_unit)
qed

lemma abs_le_square: "\<bar>k\<bar> \<le> k\<^sup>2" for k :: int
proof (cases "k = 0")
  case True
  then show ?thesis by simp
next
  case False
  then have "1 \<le> \<bar>k\<bar>" by simp
  then have "\<bar>k\<bar> * 1 \<le> \<bar>k\<bar> * \<bar>k\<bar>" by (intro mult_left_mono) simp_all
  then show ?thesis by (simp add: power2_eq_square)
qed

text \<open>
  C5, as stated, fails without any denominator overflowing: adding and
  subtracting \<open>1/0\<close> turns \<open>1/2\<close> into \<open>1/0\<close>; and adding \<open>0/2\<close> to \<open>2^62/1\<close>
  wraps the numerator, with the denominators 1 and 2 throughout.
\<close>

theorem roundtrip_counterexample:
  "Reduce (Sub (Add \<lparr>N = 1, D = 2\<rparr> \<lparr>N = 1, D = 0\<rparr>) \<lparr>N = 1, D = 0\<rparr>) = Inr \<lparr>N = 1, D = 0\<rparr> \<and>
   Reduce \<lparr>N = 1, D = 2\<rparr> = Inr \<lparr>N = 1, D = 2\<rparr> \<and>
   Add \<lparr>N = 4611686018427387904, D = 1\<rparr> \<lparr>N = 0, D = 2\<rparr> = \<lparr>N = MinInt, D = 2\<rparr> \<and>
   Reduce (Sub (Add \<lparr>N = 4611686018427387904, D = 1\<rparr> \<lparr>N = 0, D = 2\<rparr>) \<lparr>N = 0, D = 2\<rparr>)
     = Inr \<lparr>N = - 4611686018427387904, D = 1\<rparr> \<and>
   Reduce \<lparr>N = 4611686018427387904, D = 1\<rparr> = Inr \<lparr>N = 4611686018427387904, D = 1\<rparr>"
proof -
  have a: "Reduce (Sub (Add \<lparr>N = 1, D = 2\<rparr> \<lparr>N = 1, D = 0\<rparr>) \<lparr>N = 1, D = 0\<rparr>) = Inr \<lparr>N = 1, D = 0\<rparr>"
    by code_simp
  have b: "Reduce \<lparr>N = 1, D = 2\<rparr> = Inr \<lparr>N = 1, D = 2\<rparr>" by code_simp
  have c: "Add \<lparr>N = 4611686018427387904, D = 1\<rparr> \<lparr>N = 0, D = 2\<rparr> = \<lparr>N = MinInt, D = 2\<rparr>"
    by (simp add: Add_def Let_def MinInt_def)
  have d: "Reduce (Sub (Add \<lparr>N = 4611686018427387904, D = 1\<rparr> \<lparr>N = 0, D = 2\<rparr>) \<lparr>N = 0, D = 2\<rparr>)
     = Inr \<lparr>N = - 4611686018427387904, D = 1\<rparr>" by code_simp
  have e: "Reduce \<lparr>N = 4611686018427387904, D = 1\<rparr> = Inr \<lparr>N = 4611686018427387904, D = 1\<rparr>"
    by code_simp
  show ?thesis by (intro conjI a b c d e)
qed

text \<open>
  C5, amended.  The round trip \<open>x.Add(y).Sub(y).Reduce() == x.Reduce()\<close>
  holds, both sides panicking alike for \<open>0/0\<close>, when the denominators are
  equal, and otherwise when \<open>y.D\<close> is non-zero and neither \<open>x.N * y.D^2\<close> nor
  \<open>x.D * y.D^2\<close> leaves the range of \<open>int\<close>.
\<close>

theorem Add_Sub_roundtrip:
  assumes "D x = D y \<or>
           D y \<noteq> 0 \<and> \<bar>sint (N x)\<bar> * (sint (D y))\<^sup>2 < 2 ^ 63 \<and>
           \<bar>sint (D x)\<bar> * (sint (D y))\<^sup>2 < 2 ^ 63"
  shows "Reduce (Sub (Add x y) y) = Reduce x"
proof (cases "D x = D y")
  case True
  then have "Sub (Add x y) y = x" by (simp add: Add_def Sub_def)
  then show ?thesis by simp
next
  case ne: False
  let ?A = "sint (N x)" and ?B = "sint (D x)" and ?K = "sint (D y)"
  from ne assms have K0: "D y \<noteq> 0" and bA: "\<bar>?A\<bar> * ?K\<^sup>2 < 2 ^ 63" and bB: "\<bar>?B\<bar> * ?K\<^sup>2 < 2 ^ 63"
    by simp_all
  have sK0: "?K \<noteq> 0" using K0 by (rule sint_ne_0)
  show ?thesis
  proof (cases "N x = 0 \<and> D x = 0")
    case True
    with ne have "Sub (Add x y) y = x" by (simp add: Add_def Sub_def Let_def)
    then show ?thesis by simp
  next
    case False
    then have nz: "?A \<noteq> 0 \<or> ?B \<noteq> 0" using sint_ne_0 by blast
    have K2pos: "0 < ?K\<^sup>2" using sK0 by simp
    have K2: "?K\<^sup>2 < 2 ^ 63"
    proof -
      from nz have "1 \<le> \<bar>?A\<bar> \<or> 1 \<le> \<bar>?B\<bar>" by auto
      then have "1 * ?K\<^sup>2 \<le> \<bar>?A\<bar> * ?K\<^sup>2 \<or> 1 * ?K\<^sup>2 \<le> \<bar>?B\<bar> * ?K\<^sup>2"
        using K2pos by (auto intro: mult_right_mono)
      with bA bB show ?thesis by auto
    qed
    have absK: "\<bar>?K\<bar> < 2 ^ 63" using abs_le_square [of ?K] K2 by simp
    have "fits (?K * ?K)" using K2 K2pos by (simp add: fits_def power2_eq_square)
    then have sKK: "sint (D y * D y) = ?K\<^sup>2" by (simp add: sint_mult_fits power2_eq_square)
    have AK: "\<bar>?A\<bar> * \<bar>?K\<bar> < 2 ^ 63"
    proof -
      have "\<bar>?A\<bar> * \<bar>?K\<bar> \<le> \<bar>?A\<bar> * ?K\<^sup>2" by (intro mult_left_mono abs_le_square) simp
      with bA show ?thesis by simp
    qed
    have BK: "\<bar>?B\<bar> * \<bar>?K\<bar> < 2 ^ 63"
    proof -
      have "\<bar>?B\<bar> * \<bar>?K\<bar> \<le> \<bar>?B\<bar> * ?K\<^sup>2" by (intro mult_left_mono abs_le_square) simp
      with bB show ?thesis by simp
    qed
    show ?thesis
    proof (cases "D x * D y = D y")
      case True
      have "fits (?B * ?K)" using BK by (simp add: fits_abs abs_mult)
      then have "sint (D x * D y) = ?B * ?K" by (rule sint_mult_fits)
      with True have "?B * ?K = ?K" by simp
      with sK0 have "?B = 1" by simp
      then have "word_of_int ?B = (1 :: go_int)" by simp
      then have Dx: "D x = 1" by simp
      then have x: "x = \<lparr>N = N x, D = 1\<rparr>" by (cases x) simp
      have "Sub (Add x y) y = \<lparr>N = N x * D y, D = D y\<rparr>"
        using ne True Dx by (simp add: Add_def Sub_def Let_def)
      then have "Reduce (Sub (Add x y) y) = Reduce \<lparr>N = N x * D y, D = D y\<rparr>" by simp
      also have "\<dots> = Reduce \<lparr>N = N x, D = 1\<rparr>"
        using sK0 absK AK by (rule Reduce_scale_unit)
      also have "\<dots> = Reduce x" using x by simp
      finally show ?thesis .
    next
      case False
      have "Sub (Add x y) y = \<lparr>N = N x * (D y * D y), D = D x * (D y * D y)\<rparr>"
        using ne False by (simp add: Add_def Sub_def Let_def algebra_simps)
      then have "Reduce (Sub (Add x y) y) = Reduce \<lparr>N = N x * (D y * D y), D = D x * (D y * D y)\<rparr>"
        by simp
      also have "\<dots> = Reduce x"
        using K2pos bA bB by (intro Reduce_scale) (simp_all add: sKK)
      finally show ?thesis .
    qed
  qed
qed

theorem Add_Sub_roundtrip_witness:
  "D \<lparr>N = 3, D = 4\<rparr> \<noteq> 0 \<and> D \<lparr>N = 1, D = 2\<rparr> \<noteq> D \<lparr>N = 3, D = 4\<rparr> \<and>
   \<bar>sint (N \<lparr>N = 1, D = 2\<rparr>)\<bar> * (sint (D \<lparr>N = 3, D = 4\<rparr>))\<^sup>2 < 2 ^ 63 \<and>
   \<bar>sint (D \<lparr>N = 1, D = 2\<rparr>)\<bar> * (sint (D \<lparr>N = 3, D = 4\<rparr>))\<^sup>2 < 2 ^ 63 \<and>
   Sub (Add \<lparr>N = 1, D = 2\<rparr> \<lparr>N = 3, D = 4\<rparr>) \<lparr>N = 3, D = 4\<rparr> = \<lparr>N = 16, D = 32\<rparr> \<and>
   Reduce \<lparr>N = 16, D = 32\<rparr> = Inr \<lparr>N = 1, D = 2\<rparr> \<and>
   Reduce \<lparr>N = 1, D = 2\<rparr> = Inr \<lparr>N = 1, D = 2\<rparr>"
proof -
  have s: "Sub (Add \<lparr>N = 1, D = 2\<rparr> \<lparr>N = 3, D = 4\<rparr>) \<lparr>N = 3, D = 4\<rparr> = \<lparr>N = 16, D = 32\<rparr>"
    by (simp add: Add_def Sub_def Let_def)
  have r: "Reduce \<lparr>N = 1, D = 2\<rparr> = Inr \<lparr>N = 1, D = 2\<rparr>" by code_simp
  show ?thesis
    using Add_Sub_roundtrip [of "\<lparr>N = 1, D = 2\<rparr>" "\<lparr>N = 3, D = 4\<rparr>"] by (simp add: s r)
qed

section \<open>Parsing\<close>

lemma cut_slash_no_slash: "CHR ''/'' \<notin> set s \<Longrightarrow> cut_slash s = (s, [])"
  by (induction s) auto

lemma cut_slash_first: "CHR ''/'' \<notin> set (fst (cut_slash s))"
  by (induction s) (simp_all add: split_beta)

lemma cut_slash_split:
  "CHR ''/'' \<in> set s \<Longrightarrow> s = fst (cut_slash s) @ CHR ''/'' # snd (cut_slash s)"
  by (induction s) (auto simp add: split_beta)

lemma digits_fails: "c \<in> set ds \<Longrightarrow> digit c = None \<Longrightarrow> \<exists>e. digits n ds = Inl e"
  by (induction ds arbitrary: n) (auto split: option.splits)

lemma digit_space: "digit CHR '' '' = None"
  by (simp add: digit_def)

lemma Atoi_space: "CHR '' '' \<in> set u \<Longrightarrow> snd (Atoi u) \<noteq> None"
proof (cases u)
  case Nil
  then show ?thesis by (simp add: Atoi_def)
next
  case (Cons c cs)
  assume sp: "CHR '' '' \<in> set u"
  show ?thesis
  proof (cases "c = CHR ''+'' \<or> c = CHR ''-''")
    case True
    with sp Cons have "CHR '' '' \<in> set cs" by auto
    then obtain e where "digits 0 cs = Inl e" using digits_fails digit_space by blast
    moreover have "cs \<noteq> []" using \<open>CHR '' '' \<in> set cs\<close> by auto
    ultimately show ?thesis using True Cons by (cases e) (auto simp add: Atoi_def)
  next
    case False
    from sp obtain e where "digits 0 u = Inl e" using digits_fails digit_space by blast
    with False Cons show ?thesis by (cases e) (auto simp add: Atoi_def)
  qed
qed

lemma Parse_eq:
  "Parse s =
     (case cut_slash s of (a, t) \<Rightarrow>
        (case Atoi a of
           (n, Some e) \<Rightarrow> (\<lparr>N = n, D = 1\<rparr>, Some e)
         | (n, None) \<Rightarrow>
             if t = [] then (\<lparr>N = n, D = 1\<rparr>, None)
             else (\<lparr>N = n, D = fst (Atoi t)\<rparr>, snd (Atoi t))))"
  by (simp add: Parse_def Let_def split_beta split: option.splits prod.splits)

text \<open>
  C7, as stated, fails on a trailing \<open>/\<close>: the denominator substring of
  \<open>"3/"\<close> is empty, which is not a valid integer, yet \<open>Parse\<close> returns \<open>3/1\<close>
  and no error, because the denominator is parsed only when \<open>t != ""\<close>.
\<close>

theorem Parse_counterexample:
  "cut_slash ''3/'' = (''3'', []) \<and> snd (Atoi []) = Some ErrSyntax \<and>
   Parse ''3/'' = (\<lparr>N = 3, D = 1\<rparr>, None)"
  by (simp add: Parse_def Atoi_def digit_def Let_def)

text \<open>
  C7, amended.  \<open>Parse\<close> cuts the input at the first \<open>/\<close> (the whole input is
  the numerator substring when there is none) and parses the numerator
  substring with \<open>Atoi\<close>; if that fails, it returns the error and the
  denominator 1.  Otherwise an empty denominator substring, whether no \<open>/\<close>
  is present or nothing follows it, gives the denominator 1 and no error, and
  a non-empty one is parsed with \<open>Atoi\<close>, whose value and error are returned.
  Whitespace is not trimmed: a space in the numerator substring, or in the
  denominator substring after a valid numerator, is a parse error.
\<close>

theorem Parse_spec:
  "(case cut_slash s of (a, t) \<Rightarrow>
      CHR ''/'' \<notin> set a \<and>
      (if CHR ''/'' \<in> set s then s = a @ CHR ''/'' # t else a = s \<and> t = []) \<and>
      Parse s =
        (case Atoi a of
           (n, Some e) \<Rightarrow> (\<lparr>N = n, D = 1\<rparr>, Some e)
         | (n, None) \<Rightarrow>
             if t = [] then (\<lparr>N = n, D = 1\<rparr>, None)
             else (\<lparr>N = n, D = fst (Atoi t)\<rparr>, snd (Atoi t))) \<and>
      (CHR '' '' \<in> set a \<longrightarrow> snd (Parse s) \<noteq> None) \<and>
      (CHR '' '' \<in> set t \<and> snd (Atoi a) = None \<longrightarrow> snd (Parse s) \<noteq> None))"
proof -
  obtain a t where c: "cut_slash s = (a, t)" by (cases "cut_slash s")
  have p1: "CHR ''/'' \<notin> set a" using cut_slash_first [of s] c by simp
  have p2: "if CHR ''/'' \<in> set s then s = a @ CHR ''/'' # t else a = s \<and> t = []"
    using cut_slash_split [of s] cut_slash_no_slash [of s] c by auto
  have p3: "Parse s =
        (case Atoi a of
           (n, Some e) \<Rightarrow> (\<lparr>N = n, D = 1\<rparr>, Some e)
         | (n, None) \<Rightarrow>
             if t = [] then (\<lparr>N = n, D = 1\<rparr>, None)
             else (\<lparr>N = n, D = fst (Atoi t)\<rparr>, snd (Atoi t)))"
    using c by (simp add: Parse_eq)
  have p4: "CHR '' '' \<in> set a \<longrightarrow> snd (Parse s) \<noteq> None"
    using Atoi_space [of a] by (auto simp add: p3 split: prod.splits option.splits)
  have p5: "CHR '' '' \<in> set t \<and> snd (Atoi a) = None \<longrightarrow> snd (Parse s) \<noteq> None"
    using Atoi_space [of t] by (auto simp add: p3 split: prod.splits option.splits)
  show ?thesis unfolding c using p1 p2 p3 p4 p5 by simp
qed

theorem Parse_spec_witness:
  "cut_slash ''3/-2'' = (''3'', ''-2'') \<and>
   Parse ''3/-2'' = (\<lparr>N = 3, D = - 2\<rparr>, None) \<and>
   Parse ''-3/-2'' = (\<lparr>N = - 3, D = - 2\<rparr>, None) \<and>
   Parse ''7'' = (\<lparr>N = 7, D = 1\<rparr>, None) \<and>
   Parse ''x/2'' = (\<lparr>N = 0, D = 1\<rparr>, Some ErrSyntax) \<and>
   Parse ''1/2/3'' = (\<lparr>N = 1, D = 0\<rparr>, Some ErrSyntax) \<and>
   Parse ''9223372036854775808'' = (\<lparr>N = MaxInt, D = 1\<rparr>, Some ErrRange) \<and>
   CHR '' '' \<in> set '' 3'' \<and> snd (Parse '' 3/2'') = Some ErrSyntax \<and>
   CHR '' '' \<in> set ''2 '' \<and> snd (Atoi ''3'') = None \<and> snd (Parse ''3/2 '') = Some ErrSyntax"
proof -
  have a: "Parse ''3/-2'' = (\<lparr>N = 3, D = - 2\<rparr>, None)"
    by (simp add: Parse_def Atoi_def digit_def Let_def)
  have b: "Parse ''-3/-2'' = (\<lparr>N = - 3, D = - 2\<rparr>, None)"
    by (simp add: Parse_def Atoi_def digit_def Let_def)
  have c: "Parse ''7'' = (\<lparr>N = 7, D = 1\<rparr>, None)"
    by (simp add: Parse_def Atoi_def digit_def Let_def)
  have d: "Parse ''x/2'' = (\<lparr>N = 0, D = 1\<rparr>, Some ErrSyntax)"
    by (simp add: Parse_def Atoi_def digit_def Let_def)
  have e: "Parse ''1/2/3'' = (\<lparr>N = 1, D = 0\<rparr>, Some ErrSyntax)"
    by (simp add: Parse_def Atoi_def digit_def Let_def)
  have f: "snd (Atoi ''3'') = None" by (simp add: Atoi_def digit_def)
  have g: "Parse ''9223372036854775808'' = (\<lparr>N = MaxInt, D = 1\<rparr>, Some ErrRange)"
    by (simp add: Parse_def Atoi_def digit_def Let_def)
  show ?thesis
    using Parse_spec [of "'' 3/2''"] Parse_spec [of "''3/2 ''"] a b c d e f g
    by (simp add: Atoi_def digit_def Let_def)
qed

end
